theory Spec2Isabelle
  imports Main "HOL-Library.Char_ord" "HOL-Library.List_Lexorder" "HOL-Library.Multiset"
begin

section \<open>Python string operations used by the monitor\<close>

text \<open>
  Strings are lists of characters. The model covers ASCII text, which is what the
  files under \<^verbatim>\<open>/proc\<close> and the output of \<^verbatim>\<open>ss\<close> hold.
\<close>

definition startswith :: "string \<Rightarrow> string \<Rightarrow> bool" where
  "startswith s p = (take (length p) s = p)"

definition endswith :: "string \<Rightarrow> string \<Rightarrow> bool" where
  "endswith s p = (length p \<le> length s \<and> drop (length s - length p) s = p)"

text \<open>\<^verbatim>\<open>s.split(sep)\<close> for a one-character separator: never an empty list.\<close>

fun split_on :: "char \<Rightarrow> string \<Rightarrow> string list" where
  "split_on sep [] = [[]]"
| "split_on sep (c # cs) =
     (if c = sep then [] # split_on sep cs
      else (case split_on sep cs of
              [] \<Rightarrow> [[c]]
            | w # ws \<Rightarrow> (c # w) # ws))"

text \<open>\<^verbatim>\<open>s.rsplit(sep, 1)\<close>: one split at the last separator, if there is one.\<close>

definition rsplit1 :: "char \<Rightarrow> string \<Rightarrow> string list" where
  "rsplit1 sep s =
     (if sep \<in> set s
      then [rev (tl (dropWhile (\<lambda>c. c \<noteq> sep) (rev s))), rev (takeWhile (\<lambda>c. c \<noteq> sep) (rev s))]
      else [s])"

text \<open>The ASCII characters for which \<^verbatim>\<open>str.isspace\<close> holds.\<close>

definition is_space :: "char \<Rightarrow> bool" where
  "is_space c = (c \<in> set [CHR '' '', CHR 0x09, CHR 0x0A, CHR 0x0B, CHR 0x0C, CHR 0x0D,
                             CHR 0x1C, CHR 0x1D, CHR 0x1E, CHR 0x1F])"

text \<open>\<^verbatim>\<open>s.split()\<close>: the maximal runs of non-blank characters, in order.\<close>

fun split_ws_acc :: "string \<Rightarrow> string \<Rightarrow> string list" where
  "split_ws_acc cur [] = (if cur = [] then [] else [rev cur])"
| "split_ws_acc cur (c # cs) =
     (if is_space c
      then (if cur = [] then split_ws_acc [] cs else rev cur # split_ws_acc [] cs)
      else split_ws_acc (c # cur) cs)"

definition split_ws :: "string \<Rightarrow> string list" where
  "split_ws s = split_ws_acc [] s"

text \<open>\<^verbatim>\<open>s.strip()\<close>.\<close>

definition strip :: "string \<Rightarrow> string" where
  "strip s = rev (dropWhile is_space (rev (dropWhile is_space s)))"

text \<open>\<^verbatim>\<open>s.lower()\<close> on ASCII letters.\<close>

definition lower_char :: "char \<Rightarrow> char" where
  "lower_char c =
     (case map_of (zip ''ABCDEFGHIJKLMNOPQRSTUVWXYZ'' ''abcdefghijklmnopqrstuvwxyz'') c of
        None \<Rightarrow> c
      | Some d \<Rightarrow> d)"

definition lower :: "string \<Rightarrow> string" where
  "lower s = map lower_char s"

text \<open>
  \<^verbatim>\<open>int(tok)\<close> on a token without blanks: an optional sign, then decimal digits, where
  single underscores may stand between digits. \<open>None\<close> is \<^verbatim>\<open>ValueError\<close>.
  The model sets no bound on the number of digits; an interpreter that bounds it raises
  \<^verbatim>\<open>ValueError\<close> on longer tokens, which \<^verbatim>\<open>get_process_io\<close> turns into \<open>(0, 0)\<close>.
\<close>

definition digit_of :: "char \<Rightarrow> int option" where
  "digit_of c = map_of (zip ''0123456789'' [0, 1, 2, 3, 4, 5, 6, 7, 8, 9]) c"

fun parse_digits :: "int \<Rightarrow> bool \<Rightarrow> string \<Rightarrow> int option" where
  "parse_digits acc after_digit [] = (if after_digit then Some acc else None)"
| "parse_digits acc after_digit (c # cs) =
     (case digit_of c of
        Some d \<Rightarrow> parse_digits (10 * acc + d) True cs
      | None \<Rightarrow> (if c = CHR ''_'' \<and> after_digit then parse_digits acc False cs else None))"

definition py_int :: "string \<Rightarrow> int option" where
  "py_int tok =
     (case tok of
        [] \<Rightarrow> None
      | c # cs \<Rightarrow>
          (if c = CHR ''-'' then map_option uminus (parse_digits 0 False cs)
           else if c = CHR ''+'' then parse_digits 0 False cs
           else parse_digits 0 False tok))"

section \<open>Process I/O reader\<close>

datatype py_error = OSError | IndexError | ValueError

text \<open>\<^verbatim>\<open>int(line.split()[1])\<close>.\<close>

definition second_field :: "string \<Rightarrow> py_error + int" where
  "second_field line =
     (case split_ws line of
        a # b # rest \<Rightarrow> (case py_int b of None \<Rightarrow> Inl ValueError | Some v \<Rightarrow> Inr v)
      | _ \<Rightarrow> Inl IndexError)"

text \<open>The loop over the lines of the file; \<open>acc\<close> holds \<open>(rx_bytes, tx_bytes)\<close>.\<close>

fun scan_io :: "int \<times> int \<Rightarrow> string list \<Rightarrow> py_error + (int \<times> int)" where
  "scan_io acc [] = Inr acc"
| "scan_io acc (line # ls) =
     (if startswith line ''rchar:''
      then (case second_field line of Inl e \<Rightarrow> Inl e | Inr v \<Rightarrow> scan_io (v, snd acc) ls)
      else if startswith line ''wchar:''
      then (case second_field line of Inl e \<Rightarrow> Inl e | Inr v \<Rightarrow> scan_io (fst acc, v) ls)
      else scan_io acc ls)"

text \<open>
  The body of the \<^verbatim>\<open>try\<close> block. Its argument is what opening and reading
  \<^verbatim>\<open>/proc/<pid>/io\<close> gave: \<open>None\<close> when that raised, the text otherwise.
\<close>

definition get_process_io_body :: "string option \<Rightarrow> py_error + (int \<times> int)" where
  "get_process_io_body io =
     (case io of
        None \<Rightarrow> Inl OSError
      | Some io_data \<Rightarrow> scan_io (0, 0) (split_on CHR 0x0A io_data))"

text \<open>The bare \<^verbatim>\<open>except\<close> turns every error into \<open>(0, 0)\<close>.\<close>

definition get_process_io :: "string option \<Rightarrow> int \<times> int" where
  "get_process_io io = (case get_process_io_body io of Inl e \<Rightarrow> (0, 0) | Inr r \<Rightarrow> r)"

section \<open>Connections and counters\<close>

text \<open>
  One dictionary built by \<^verbatim>\<open>get_connections\<close>. The keys \<^verbatim>\<open>rx_rate\<close> and
  \<^verbatim>\<open>tx_rate\<close> are absent (\<open>None\<close>) until the windowed program attaches them.
  \<open>pid\<close> is the text \<^verbatim>\<open>N/A\<close> or the digits found in the owner token.
\<close>

record conn =
  protocol :: string
  state :: string
  local :: string
  remote :: string
  program :: string
  pid :: string
  rx_rate :: "int option"
  tx_rate :: "int option"

text \<open>\<^verbatim>\<open>conn.get(key, 0)\<close>.\<close>

definition get_rate :: "int option \<Rightarrow> int" where
  "get_rate v = (case v of None \<Rightarrow> 0 | Some r \<Rightarrow> r)"

text \<open>The value kept per process id: \<^verbatim>\<open>{'rx': ..., 'tx': ...}\<close>.\<close>

record io_sample =
  rx :: int
  tx :: int

text \<open>
  The input of one cycle: every connection that \<^verbatim>\<open>get_connections\<close> returned, paired with
  what reading \<^verbatim>\<open>/proc/<pid>/io\<close> gives at the moment the loop reaches that connection
  (unused when the loop does not read it).
\<close>

type_synonym sockets = "(conn \<times> string option) list"

section \<open>The terminal program\<close>

definition resolve_address_cli :: "string \<Rightarrow> string" where
  "resolve_address_cli addr =
     (if addr = ''0.0.0.0:*'' \<or> addr = ''*:*'' \<or> addr = ''[::]:*'' then ''ANY''
      else if startswith addr ''127.0.0.1:'' \<or> startswith addr ''[::1]:'' then ''LOCALHOST''
      else if startswith addr ''224.0.0.251:'' then ''MDNS''
      else addr)"

text \<open>
  The \<^verbatim>\<open>for conn in connections\<close> loop of \<^verbatim>\<open>main\<close>. It returns the arguments of
  each \<^verbatim>\<open>print_table_row\<close> call, the counter of active connections and the dictionary
  \<^verbatim>\<open>prev_io\<close>, which the loop updates in place.
\<close>

fun cli_loop ::
  "(string \<rightharpoonup> io_sample) \<Rightarrow> nat \<Rightarrow> sockets \<Rightarrow>
     (conn \<times> int \<times> int) list \<times> nat \<times> (string \<rightharpoonup> io_sample)" where
  "cli_loop prev active [] = ([], active, prev)"
| "cli_loop prev active ((c, io) # rest) =
     (if resolve_address_cli (remote c) = ''LOCALHOST'' then cli_loop prev active rest
      else
        (let (rate, prev1) =
               (if pid c \<noteq> ''N/A''
                then (let (current_read, current_write) = get_process_io io
                      in ((case prev (pid c) of
                             Some p \<Rightarrow> (current_read - rx p, current_write - tx p)
                           | None \<Rightarrow> (0, 0)),
                          prev(pid c \<mapsto> \<lparr>rx = current_read, tx = current_write\<rparr>)))
                else ((0, 0), prev));
             active1 = (if fst rate > 0 \<or> snd rate > 0 then active + 1 else active);
             (rows, active2, prev2) = cli_loop prev1 active1 rest
         in ((c, fst rate, snd rate) # rows, active2, prev2)))"

text \<open>
  One pass of the \<^verbatim>\<open>while True\<close> loop: the rows printed, the summary
  \<open>(total, active)\<close> when one is printed, and \<^verbatim>\<open>prev_io\<close> afterwards.
\<close>

record cli_cycle =
  cli_rows :: "(conn \<times> int \<times> int) list"
  cli_summary :: "(nat \<times> nat) option"
  cli_prev_io :: "string \<rightharpoonup> io_sample"

definition main_cycle :: "(string \<rightharpoonup> io_sample) \<Rightarrow> sockets \<Rightarrow> cli_cycle" where
  "main_cycle prev connections =
     (if connections \<noteq> []
      then (let (rows, active, prev1) = cli_loop prev 0 connections
            in \<lparr>cli_rows = rows, cli_summary = Some (length connections, active),
                cli_prev_io = prev1\<rparr>)
      else \<lparr>cli_rows = [], cli_summary = None, cli_prev_io = prev\<rparr>)"

section \<open>The windowed program\<close>

text \<open>Callbacks handed to \<^verbatim>\<open>GLib.idle_add\<close>, run later by the main loop.\<close>

datatype idle_cb = DelayedRefresh | UpdateResolutionCache string string

datatype status = Monitoring | Counts nat nat

text \<open>
  The fields of \<^verbatim>\<open>NetworkMonitorWindow\<close> that the engine reads and writes.
  \<open>threads\<close> lists the arguments of every lookup thread started, \<open>idle\<close> the callbacks
  scheduled and not yet run, \<open>timeouts\<close> counts the \<^verbatim>\<open>GLib.timeout_add\<close> calls,
  \<open>shown\<close> holds the connections behind the rows of the grid and \<open>grid\<close> their texts.
\<close>

record window =
  prev_io :: "string \<rightharpoonup> io_sample"
  sort_column :: nat
  sort_ascending :: bool
  resolve_hosts :: bool
  resolution_cache :: "string \<rightharpoonup> string"
  resolution_pending :: "string set"
  threads :: "(string \<times> string) list"
  idle :: "idle_cb list"
  timeouts :: nat
  shown :: "conn list"
  grid :: "string list list"
  status_bar :: status

text \<open>
  What a cycle reads from outside: the sockets with their counter files, the command-line
  file of each process id (\<open>None\<close> when reading raises), and \<^verbatim>\<open>format_bytes\<close>, whose
  floating-point formatting is taken as given.
\<close>

record env =
  sockets :: sockets
  cmdline :: "string \<Rightarrow> string option"
  format_bytes :: "int \<Rightarrow> string"

text \<open>The host part that \<^verbatim>\<open>resolve_address\<close> extracts from an address holding a colon.\<close>

definition ip_part_of :: "string \<Rightarrow> string" where
  "ip_part_of addr =
     (let ip_part = hd (rsplit1 CHR '':'' addr)
      in if startswith ip_part ''['' \<and> endswith ip_part '']'' then butlast (tl ip_part)
         else ip_part)"

definition resolve_address :: "window \<Rightarrow> string \<Rightarrow> string \<times> window" where
  "resolve_address w addr =
     (if addr = ''0.0.0.0:*'' \<or> addr = ''*:*'' \<or> addr = ''[::]:*'' then (''ANY'', w)
      else if startswith addr ''127.0.0.1:'' \<or> startswith addr ''[::1]:'' then (''LOCALHOST'', w)
      else if startswith addr ''224.0.0.251:'' then (''MDNS'', w)
      else if \<not> resolve_hosts w then (addr, w)
      else (case resolution_cache w addr of
              Some resolved \<Rightarrow> (resolved, w)
            | None \<Rightarrow>
                (if CHR '':'' \<in> set addr
                 then (let ip_part = ip_part_of addr
                       in (addr,
                           if ip_part \<notin> resolution_pending w
                           then w\<lparr>resolution_pending := insert ip_part (resolution_pending w),
                                  threads := threads w @ [(ip_part, addr)]\<rparr>
                           else w))
                 else (addr, w))))"

text \<open>
  The body of a lookup thread. \<open>lookup\<close> is the host name that
  \<^verbatim>\<open>socket.gethostbyaddr\<close> returned, or \<open>None\<close> when it raised. The thread hands
  its result to the main loop; the semaphore around it is not part of this model.
\<close>

definition async_resolve_host :: "string option \<Rightarrow> string \<Rightarrow> string \<Rightarrow> window \<Rightarrow> window" where
  "async_resolve_host lookup ip_part full_addr w =
     (let resolved =
            (case lookup of
               None \<Rightarrow> full_addr
             | Some hostname \<Rightarrow>
                 (case rsplit1 CHR '':'' full_addr of
                    [a, port] \<Rightarrow> hostname @ '':'' @ port
                  | _ \<Rightarrow> full_addr))
      in w\<lparr>idle := idle w @ [UpdateResolutionCache full_addr resolved]\<rparr>)"

definition get_process_path :: "string option \<Rightarrow> string \<Rightarrow> string" where
  "get_process_path file p =
     (case file of
        None \<Rightarrow> ''N/A''
      | Some content \<Rightarrow>
          (let cmd = strip content
           in if cmd \<noteq> [] then map (\<lambda>c. if c = CHR 0x00 then CHR '' '' else c) cmd
              else ''['' @ p @ '']''))"

definition get_row_data :: "env \<Rightarrow> window \<Rightarrow> conn \<Rightarrow> string list \<times> window" where
  "get_row_data e w c =
     (let rx_r = get_rate (rx_rate c);
          tx_r = get_rate (tx_rate c);
          prog_pid = (if pid c \<noteq> ''N/A'' then program c @ ''('' @ pid c @ '')'' else program c);
          (local_resolved, w1) = resolve_address w (local c);
          (remote_resolved, w2) = resolve_address w1 (remote c);
          prog_pid = (if length prog_pid > 30 then take 30 prog_pid else prog_pid);
          local_resolved =
            (if length local_resolved > 30 then take 30 local_resolved else local_resolved);
          remote_resolved =
            (if length remote_resolved > 30 then take 30 remote_resolved else remote_resolved);
          process_path =
            (if pid c \<noteq> ''N/A'' then get_process_path (cmdline e (pid c)) (pid c) else ''N/A'')
      in ([prog_pid, protocol c, local_resolved, remote_resolved, state c,
           format_bytes e tx_r, format_bytes e rx_r, process_path], w2))"

text \<open>
  \<^verbatim>\<open>sorted(xs, key=key, reverse=reverse)\<close>: a stable sort; with \<^verbatim>\<open>reverse\<close> the
  list is reversed before and after, which keeps equal keys in their input order.
\<close>

definition py_sorted :: "('a \<Rightarrow> 'k::linorder) \<Rightarrow> bool \<Rightarrow> 'a list \<Rightarrow> 'a list" where
  "py_sorted key reverse xs = (if reverse then rev (sort_key key (rev xs)) else sort_key key xs)"

text \<open>\<^verbatim>\<open>get_sort_key\<close> for the columns other than 5 and 6.\<close>

definition get_sort_key :: "env \<Rightarrow> window \<Rightarrow> conn \<Rightarrow> string \<times> window" where
  "get_sort_key e w c =
     (let (row_data, w1) = get_row_data e w c
      in if sort_column w \<ge> length row_data then ([], w1)
         else (lower (row_data ! sort_column w), w1))"

text \<open>The keys of all elements, computed once each, in list order, before the sort.\<close>

fun sort_keys :: "env \<Rightarrow> window \<Rightarrow> conn list \<Rightarrow> string list \<times> window" where
  "sort_keys e w [] = ([], w)"
| "sort_keys e w (c # cs) =
     (let (k, w1) = get_sort_key e w c;
          (ks, w2) = sort_keys e w1 cs
      in (k # ks, w2))"

text \<open>
  Columns 5 and 6 sort by the number stored in the connection; every other column by the
  lower-cased text of the row.
\<close>

definition sort_connections :: "env \<Rightarrow> window \<Rightarrow> conn list \<Rightarrow> conn list \<times> window" where
  "sort_connections e w connections =
     (if connections = [] then (connections, w)
      else if sort_column w = 5
      then (py_sorted (\<lambda>c. get_rate (tx_rate c)) (\<not> sort_ascending w) connections, w)
      else if sort_column w = 6
      then (py_sorted (\<lambda>c. get_rate (rx_rate c)) (\<not> sort_ascending w) connections, w)
      else (let (ks, w1) = sort_keys e w connections
            in (map snd (py_sorted fst (\<not> sort_ascending w) (zip ks connections)), w1)))"

text \<open>
  The first loop of \<^verbatim>\<open>update_connections\<close>: it builds \<^verbatim>\<open>current_io\<close> and attaches
  the rates, computed against the map \<open>prev\<close> kept from the cycle before.
\<close>

fun rate_loop ::
  "(string \<rightharpoonup> io_sample) \<Rightarrow> (string \<rightharpoonup> io_sample) \<Rightarrow> sockets \<Rightarrow>
     conn list \<times> (string \<rightharpoonup> io_sample)" where
  "rate_loop prev current_io [] = ([], current_io)"
| "rate_loop prev current_io ((c, io) # rest) =
     (if pid c \<noteq> ''N/A''
      then (let (current_read, current_write) = get_process_io io;
                current_io1 = current_io(pid c \<mapsto> \<lparr>rx = current_read, tx = current_write\<rparr>);
                c1 = (case prev (pid c) of
                        Some p \<Rightarrow>
                          (let rx_diff = max 0 (current_read - rx p);
                               tx_diff = max 0 (current_write - tx p)
                           in c\<lparr>rx_rate := Some rx_diff, tx_rate := Some tx_diff\<rparr>)
                      | None \<Rightarrow> c\<lparr>rx_rate := Some 0, tx_rate := Some 0\<rparr>);
                (cs, current_io2) = rate_loop prev current_io1 rest
            in (c1 # cs, current_io2))
      else (let (cs, current_io2) = rate_loop prev current_io rest
            in (c\<lparr>rx_rate := Some 0, tx_rate := Some 0\<rparr> # cs, current_io2)))"

text \<open>The list comprehension that drops the connections to the local host.\<close>

fun filter_localhost :: "window \<Rightarrow> conn list \<Rightarrow> conn list \<times> window" where
  "filter_localhost w [] = ([], w)"
| "filter_localhost w (c # cs) =
     (let (resolved, w1) = resolve_address w (remote c);
          (kept, w2) = filter_localhost w1 cs
      in (if resolved \<noteq> ''LOCALHOST'' then c # kept else kept, w2))"

text \<open>The loop that fills the grid and counts the active connections.\<close>

fun display_loop ::
  "env \<Rightarrow> window \<Rightarrow> nat \<Rightarrow> conn list \<Rightarrow> string list list \<times> nat \<times> window" where
  "display_loop e w active [] = ([], active, w)"
| "display_loop e w active (c # cs) =
     (let (row_data, w1) = get_row_data e w c;
          active1 = (if get_rate (rx_rate c) > 0 \<or> get_rate (tx_rate c) > 0
                     then active + 1 else active);
          (rows, active2, w2) = display_loop e w1 active1 cs
      in (row_data # rows, active2, w2))"

definition update_status :: "nat \<Rightarrow> nat \<Rightarrow> window \<Rightarrow> window" where
  "update_status tot act w =
     (if tot > 0 then w\<lparr>status_bar := Counts tot act\<rparr>
      else w\<lparr>status_bar := Monitoring\<rparr>)"

definition update_connections :: "env \<Rightarrow> window \<Rightarrow> window" where
  "update_connections e w =
     (let (connections, current_io) = rate_loop (prev_io w) Map.empty (sockets e);
          w1 = w\<lparr>prev_io := current_io\<rparr>;
          (filtered_connections, w2) = filter_localhost w1 connections;
          (sorted_connections, w3) = sort_connections e w2 filtered_connections;
          (rows, active_connections, w4) = display_loop e w3 0 sorted_connections;
          w5 = update_status (length connections) active_connections
                 (w4\<lparr>shown := sorted_connections, grid := rows\<rparr>)
      in w5\<lparr>timeouts := timeouts w5 + 1\<rparr>)"

text \<open>The callback that a finished lookup thread schedules; it runs on the main loop.\<close>

definition update_resolution_cache :: "env \<Rightarrow> string \<Rightarrow> string \<Rightarrow> window \<Rightarrow> window" where
  "update_resolution_cache e addr resolved w =
     (let w1 = w\<lparr>resolution_cache := (resolution_cache w)(addr \<mapsto> resolved)\<rparr>;
          w2 = (if addr \<in> resolution_pending w1
                then w1\<lparr>resolution_pending :=
                          resolution_pending w1 - {hd (split_on CHR '':'' addr)}\<rparr>
                else w1)
      in update_connections e w2)"

text \<open>\<open>active\<close> is the state of the toggle button after the click.\<close>

definition on_resolve_toggled :: "bool \<Rightarrow> window \<Rightarrow> window" where
  "on_resolve_toggled active w =
     (let w1 = w\<lparr>resolve_hosts := active\<rparr>;
          w2 = (if \<not> resolve_hosts w1
                then w1\<lparr>resolution_cache := Map.empty, resolution_pending := {}\<rparr>
                else w1)
      in w2\<lparr>idle := idle w2 @ [DelayedRefresh]\<rparr>)"

definition delayed_refresh :: "env \<Rightarrow> window \<Rightarrow> window" where
  "delayed_refresh e w = update_connections e (w\<lparr>prev_io := Map.empty\<rparr>)"

text \<open>The main loop runs the oldest scheduled callback, if there is one.\<close>

definition idle_step :: "env \<Rightarrow> window \<Rightarrow> window" where
  "idle_step e w =
     (case idle w of
        [] \<Rightarrow> w
      | cb # rest \<Rightarrow>
          (case cb of
             DelayedRefresh \<Rightarrow> delayed_refresh e (w\<lparr>idle := rest\<rparr>)
           | UpdateResolutionCache addr resolved \<Rightarrow>
               update_resolution_cache e addr resolved (w\<lparr>idle := rest\<rparr>)))"

text \<open>The fields as \<^verbatim>\<open>__init__\<close> sets them.\<close>

definition init_window :: window where
  "init_window =
     \<lparr>prev_io = Map.empty, sort_column = 0, sort_ascending = True, resolve_hosts = True,
      resolution_cache = Map.empty, resolution_pending = {}, threads = [], idle = [],
      timeouts = 0, shown = [], grid = [], status_bar = Monitoring\<rparr>"

section \<open>Notions used in the statements, and sample data\<close>

text \<open>
  A window with the two fields cleared that \<^verbatim>\<open>resolve_address\<close> may change; two windows
  with the same \<open>core\<close> differ at most in the pending set and the started threads.
\<close>

definition core :: "window \<Rightarrow> window" where
  "core w = w\<lparr>resolution_pending := {}, threads := []\<rparr>"

text \<open>
  The rates as the specification words them: no process id gives \<open>(0, 0)\<close>, a process id
  without an earlier sample gives \<open>(0, 0)\<close>, and otherwise each rate is the difference to the
  earlier sample, or 0 when that difference is negative.
\<close>

definition spec_rates :: "(string \<rightharpoonup> io_sample) \<Rightarrow> conn \<Rightarrow> string option \<Rightarrow> int \<times> int" where
  "spec_rates prev c io =
     (if pid c = ''N/A'' then (0, 0)
      else (case prev (pid c) of
              None \<Rightarrow> (0, 0)
            | Some p \<Rightarrow> (max 0 (fst (get_process_io io) - rx p),
                         max 0 (snd (get_process_io io) - tx p))))"

text \<open>
  Sample data for the closed statements below: a connection of \<^verbatim>\<open>curl\<close> to a remote
  address, surroundings without sockets or with one or two of them, and windows in the
  states the examples start from.
\<close>

definition sample_conn :: "string \<Rightarrow> string \<Rightarrow> conn" where
  "sample_conn r p =
     \<lparr>protocol = ''tcp'', state = ''ESTAB'', local = ''10.0.0.2:5000'', remote = r,
      program = ''curl'', pid = p, rx_rate = None, tx_rate = None\<rparr>"

definition quiet_env :: env where
  "quiet_env = \<lparr>sockets = [], cmdline = (\<lambda>p. None), format_bytes = (\<lambda>n. [])\<rparr>"

definition toggle_window :: window where
  "toggle_window =
     init_window\<lparr>resolve_hosts := False, prev_io := [''100'' \<mapsto> \<lparr>rx = 1024, tx = 0\<rparr>]\<rparr>"

definition one_socket_env :: env where
  "one_socket_env =
     \<lparr>sockets = [(sample_conn ''93.184.216.34:443'' ''100'', Some ''rchar: 2048\<newline>wchar: 0'')],
      cmdline = (\<lambda>p. None), format_bytes = (\<lambda>n. [])\<rparr>"

definition two_socket_env :: env where
  "two_socket_env =
     \<lparr>sockets = [(sample_conn ''127.0.0.1:631'' ''7'', Some ''rchar: 900\<newline>wchar: 900''),
                 (sample_conn ''93.184.216.34:443'' ''100'', Some ''rchar: 2048\<newline>wchar: 0'')],
      cmdline = (\<lambda>p. None), format_bytes = (\<lambda>n. [])\<rparr>"

definition two_socket_window :: window where
  "two_socket_window =
     init_window\<lparr>prev_io := [''100'' \<mapsto> \<lparr>rx = 1024, tx = 0\<rparr>, ''7'' \<mapsto> \<lparr>rx = 1, tx = 1\<rparr>]\<rparr>"

definition rated_conn :: "string \<Rightarrow> int \<Rightarrow> int \<Rightarrow> conn" where
  "rated_conn p r t = (sample_conn ''93.184.216.34:443'' p)\<lparr>rx_rate := Some r, tx_rate := Some t\<rparr>"

definition three_rated :: "conn list" where
  "three_rated = [rated_conn ''1'' 0 1024, rated_conn ''2'' 0 900, rated_conn ''3'' 7 1024]"

definition tx_descending :: window where
  "tx_descending = init_window\<lparr>sort_column := 5, sort_ascending := False\<rparr>"

section \<open>The process I/O reader returns a pair on every input\<close>

lemma digit_of_nonneg: "digit_of c = Some d \<Longrightarrow> 0 \<le> d"
  by (auto simp: digit_of_def split: if_splits)

lemma parse_digits_nonneg:
  "0 \<le> acc \<Longrightarrow> parse_digits acc b s = Some v \<Longrightarrow> 0 \<le> v"
proof (induction s arbitrary: acc b)
  case Nil
  then show ?case by (simp split: if_splits)
next
  case (Cons c cs)
  show ?case
  proof (cases "digit_of c")
    case None
    with Cons.prems have "parse_digits acc False cs = Some v"
      by (simp split: if_splits)
    with Cons.IH Cons.prems(1) show ?thesis by blast
  next
    case (Some d)
    then have "0 \<le> d" by (rule digit_of_nonneg)
    with Cons.prems(1) have "0 \<le> 10 * acc + d" by simp
    moreover from Some Cons.prems have "parse_digits (10 * acc + d) True cs = Some v"
      by simp
    ultimately show ?thesis using Cons.IH by blast
  qed
qed

lemma py_int_nonneg:
  assumes "CHR ''-'' \<notin> set tok" and "py_int tok = Some v"
  shows "0 \<le> v"
proof (cases tok)
  case Nil
  with assms show ?thesis by (simp add: py_int_def)
next
  case (Cons c cs)
  with assms(1) have "c \<noteq> CHR ''-''" by auto
  with assms(2) Cons have "parse_digits 0 False cs = Some v \<or> parse_digits 0 False tok = Some v"
    by (simp add: py_int_def split: if_splits)
  then show ?thesis using parse_digits_nonneg [of 0] by auto
qed

lemma split_ws_acc_chars:
  "t \<in> set (split_ws_acc cur s) \<Longrightarrow> set t \<subseteq> set cur \<union> set s"
proof (induction s arbitrary: cur)
  case Nil
  then show ?case by (auto split: if_splits)
next
  case (Cons c cs)
  then show ?case by (fastforce split: if_splits)
qed

lemma second_field_nonneg:
  assumes "CHR ''-'' \<notin> set line" and "second_field line = Inr v"
  shows "0 \<le> v"
proof -
  from assms(2) obtain a b rest where sp: "split_ws line = a # b # rest" and pi: "py_int b = Some v"
    by (auto simp: second_field_def split: list.splits option.splits)
  from sp have "b \<in> set (split_ws_acc [] line)" by (simp add: split_ws_def)
  then have "set b \<subseteq> set line" using split_ws_acc_chars by fastforce
  with assms(1) have "CHR ''-'' \<notin> set b" by blast
  then show ?thesis using pi by (rule py_int_nonneg)
qed

lemma split_on_chars: "l \<in> set (split_on sep s) \<Longrightarrow> set l \<subseteq> set s"
proof (induction s arbitrary: l)
  case Nil
  then show ?case by simp
next
  case (Cons c cs)
  then show ?case by (fastforce split: if_splits list.splits)
qed

lemma scan_io_nonneg:
  "0 \<le> fst acc \<Longrightarrow> 0 \<le> snd acc \<Longrightarrow> \<forall>l \<in> set ls. CHR ''-'' \<notin> set l \<Longrightarrow>
   scan_io acc ls = Inr r \<Longrightarrow> 0 \<le> fst r \<and> 0 \<le> snd r"
proof (induction ls arbitrary: acc)
  case Nil
  then show ?case by auto
next
  case (Cons line ls)
  from Cons.prems(3) have nl: "CHR ''-'' \<notin> set line" and rest: "\<forall>l \<in> set ls. CHR ''-'' \<notin> set l"
    by simp_all
  show ?case
  proof (cases "startswith line ''rchar:''")
    case True
    with Cons.prems(4) obtain v where sf: "second_field line = Inr v"
      and sc: "scan_io (v, snd acc) ls = Inr r"
      by (auto split: sum.splits)
    from nl sf have "0 \<le> v" by (rule second_field_nonneg)
    with Cons.IH [of "(v, snd acc)"] Cons.prems(2) rest sc show ?thesis by simp
  next
    case False
    note nr = this
    show ?thesis
    proof (cases "startswith line ''wchar:''")
      case True
      with nr Cons.prems(4) obtain v where sf: "second_field line = Inr v"
        and sc: "scan_io (fst acc, v) ls = Inr r"
        by (auto split: sum.splits)
      from nl sf have "0 \<le> v" by (rule second_field_nonneg)
      with Cons.IH [of "(fst acc, v)"] Cons.prems(1) rest sc show ?thesis by simp
    next
      case False
      with nr Cons.prems(4) have "scan_io acc ls = Inr r" by simp
      with Cons.IH [of acc] Cons.prems(1,2) rest show ?thesis by simp
    qed
  qed
qed

lemma scan_io_no_counter_lines:
  "list_all (\<lambda>l. \<not> startswith l ''rchar:'' \<and> \<not> startswith l ''wchar:'') ls \<Longrightarrow>
   scan_io acc ls = Inr acc"
  by (induction ls) simp_all

lemma second_field_malformed:
  assumes "length (split_ws l) < 2 \<or> py_int (split_ws l ! 1) = None"
  shows "\<exists>e. second_field l = Inl e"
proof (cases "split_ws l")
  case Nil
  then show ?thesis by (simp add: second_field_def)
next
  case (Cons a rest)
  note outer = this
  show ?thesis
  proof (cases rest)
    case Nil
    with outer show ?thesis by (simp add: second_field_def)
  next
    case (Cons b rest')
    with outer assms have "py_int b = None" by simp
    with outer Cons show ?thesis by (simp add: second_field_def)
  qed
qed

lemma scan_io_malformed:
  assumes "l \<in> set ls"
    and "startswith l ''rchar:'' \<or> startswith l ''wchar:''"
    and "second_field l = Inl e"
  shows "\<exists>e'. scan_io acc ls = Inl e'"
  using assms(1)
proof (induction ls arbitrary: acc)
  case Nil
  then show ?case by simp
next
  case (Cons line ls)
  show ?case
  proof (cases "line = l")
    case True
    with assms(2,3) show ?thesis by auto
  next
    case False
    with Cons.prems have "l \<in> set ls" by simp
    then have rest: "\<exists>e'. scan_io acc' ls = Inl e'" for acc'
      by (rule Cons.IH)
    show ?thesis
    proof (cases "second_field line")
      case (Inl e0)
      with rest [of acc] show ?thesis by simp
    next
      case (Inr v)
      with rest [of "(v, snd acc)"] rest [of "(fst acc, v)"] rest [of acc]
      show ?thesis by simp
    qed
  qed
qed

text \<open>
  C9 (amended). \<^verbatim>\<open>get_process_io\<close> returns a pair of integers on every input: the model
  has no error result left after the bare \<^verbatim>\<open>except\<close>. The result is \<open>(0, 0)\<close> when the
  file cannot be read, when any \<^verbatim>\<open>rchar:\<close> or \<^verbatim>\<open>wchar:\<close> line of the file has no second
  field or a second field that is not an integer (even if other lines are well formed), in
  general whenever the body of the \<^verbatim>\<open>try\<close> block raises, and when the file has no
  \<^verbatim>\<open>rchar:\<close> or \<^verbatim>\<open>wchar:\<close> line at all. Both numbers are at least 0 whenever the text
  holds no minus sign, as is the case for the files the kernel writes.
\<close>

theorem get_process_io_total:
  "get_process_io None = (0, 0) \<and>
   (l \<in> set (split_on CHR 0x0A io_data) \<and>
    (startswith l ''rchar:'' \<or> startswith l ''wchar:'') \<and>
    (length (split_ws l) < 2 \<or> py_int (split_ws l ! 1) = None) \<longrightarrow>
      get_process_io (Some io_data) = (0, 0)) \<and>
   (get_process_io_body io = Inl err \<longrightarrow> get_process_io io = (0, 0)) \<and>
   (list_all (\<lambda>l. \<not> startswith l ''rchar:'' \<and> \<not> startswith l ''wchar:'')
      (split_on CHR 0x0A io_data) \<longrightarrow> get_process_io (Some io_data) = (0, 0)) \<and>
   (CHR ''-'' \<notin> set io_data \<longrightarrow>
      0 \<le> fst (get_process_io (Some io_data)) \<and> 0 \<le> snd (get_process_io (Some io_data)))"
proof -
  have unreadable: "get_process_io None = (0, 0)"
    by (simp add: get_process_io_def get_process_io_body_def)
  have malformed: "get_process_io (Some io_data) = (0, 0)"
    if line: "l \<in> set (split_on CHR 0x0A io_data)"
      and counter: "startswith l ''rchar:'' \<or> startswith l ''wchar:''"
      and bad: "length (split_ws l) < 2 \<or> py_int (split_ws l ! 1) = None"
  proof -
    from bad obtain e where "second_field l = Inl e"
      using second_field_malformed by blast
    with line counter obtain e' where "scan_io (0, 0) (split_on CHR 0x0A io_data) = Inl e'"
      using scan_io_malformed by blast
    then show ?thesis
      by (simp add: get_process_io_def get_process_io_body_def)
  qed
  have failed: "get_process_io io = (0, 0)" if "get_process_io_body io = Inl err"
    using that by (simp add: get_process_io_def)
  have absent: "get_process_io (Some io_data) = (0, 0)"
    if "list_all (\<lambda>l. \<not> startswith l ''rchar:'' \<and> \<not> startswith l ''wchar:'')
          (split_on CHR 0x0A io_data)"
  proof -
    from that have "scan_io (0, 0) (split_on CHR 0x0A io_data) = Inr (0, 0)"
      by (rule scan_io_no_counter_lines)
    then show ?thesis
      by (simp add: get_process_io_def get_process_io_body_def)
  qed
  have unsigned: "0 \<le> fst (get_process_io (Some io_data)) \<and> 0 \<le> snd (get_process_io (Some io_data))"
    if nm: "CHR ''-'' \<notin> set io_data"
  proof (cases "scan_io (0, 0) (split_on CHR 0x0A io_data)")
    case (Inl e)
    then show ?thesis by (simp add: get_process_io_def get_process_io_body_def)
  next
    case (Inr r)
    have "\<forall>l \<in> set (split_on CHR 0x0A io_data). CHR ''-'' \<notin> set l"
      using nm split_on_chars by fastforce
    with scan_io_nonneg [of "(0, 0)" "split_on CHR 0x0A io_data" r] Inr
    have "0 \<le> fst r \<and> 0 \<le> snd r" by simp
    with Inr show ?thesis by (simp add: get_process_io_def get_process_io_body_def)
  qed
  from unreadable malformed failed absent unsigned show ?thesis by blast
qed

text \<open>
  The statement at work: a file whose \<^verbatim>\<open>wchar:\<close> line carries a word instead of a number,
  and one whose \<^verbatim>\<open>wchar:\<close> line has no second field, both after a well-formed
  \<^verbatim>\<open>rchar:\<close> line, give \<open>(0, 0)\<close> and not \<open>(5, 0)\<close>; so do an unreadable file and a
  file without counter lines; a well-formed file gives numbers that are at least 0.
\<close>

theorem get_process_io_total_witness:
  "''wchar: x'' \<in> set (split_on CHR 0x0A ''rchar: 5\<newline>wchar: x'') \<and>
   startswith ''wchar: x'' ''wchar:'' \<and>
   py_int (split_ws ''wchar: x'' ! 1) = None \<and>
   get_process_io (Some ''rchar: 5\<newline>wchar: x'') = (0, 0) \<and>
   ''wchar:'' \<in> set (split_on CHR 0x0A ''rchar: 5\<newline>wchar:'') \<and>
   length (split_ws ''wchar:'') < 2 \<and>
   get_process_io (Some ''rchar: 5\<newline>wchar:'') = (0, 0) \<and>
   get_process_io_body None = Inl OSError \<and> get_process_io None = (0, 0) \<and>
   list_all (\<lambda>l. \<not> startswith l ''rchar:'' \<and> \<not> startswith l ''wchar:'')
     (split_on CHR 0x0A ''syscr: 5\<newline>syscw: 6'') \<and>
   get_process_io (Some ''syscr: 5\<newline>syscw: 6'') = (0, 0) \<and>
   CHR ''-'' \<notin> set ''rchar: 1024\<newline>wchar: 77'' \<and>
   0 \<le> fst (get_process_io (Some ''rchar: 1024\<newline>wchar: 77'')) \<and>
   0 \<le> snd (get_process_io (Some ''rchar: 1024\<newline>wchar: 77''))"
proof -
  have m1: "''wchar: x'' \<in> set (split_on CHR 0x0A ''rchar: 5\<newline>wchar: x'')"
    by simp
  have m2: "startswith ''wchar: x'' ''wchar:''"
    by (simp add: startswith_def)
  have m3: "py_int (split_ws ''wchar: x'' ! 1) = None"
    by code_simp
  have n1: "''wchar:'' \<in> set (split_on CHR 0x0A ''rchar: 5\<newline>wchar:'')"
    by simp
  have n2: "startswith ''wchar:'' ''wchar:''"
    by (simp add: startswith_def)
  have n3: "length (split_ws ''wchar:'') < 2"
    by code_simp
  have h1: "get_process_io_body None = Inl OSError"
    by (simp add: get_process_io_body_def)
  have h2: "list_all (\<lambda>l. \<not> startswith l ''rchar:'' \<and> \<not> startswith l ''wchar:'')
              (split_on CHR 0x0A ''syscr: 5\<newline>syscw: 6'')"
    by (simp add: startswith_def)
  have h3: "CHR ''-'' \<notin> set ''rchar: 1024\<newline>wchar: 77''"
    by simp
  show ?thesis
    using m1 m2 m3 n1 n2 n3 h1 h2 h3
      get_process_io_total [of "''wchar: x''" "''rchar: 5\<newline>wchar: x''" None OSError]
      get_process_io_total [of "''wchar:''" "''rchar: 5\<newline>wchar:''" None OSError]
      get_process_io_total [of "''x''" "''syscr: 5\<newline>syscw: 6''" None OSError]
      get_process_io_total [of "''x''" "''rchar: 1024\<newline>wchar: 77''" None OSError]
    by blast
qed

text \<open>
  The numbers are the integers that \<^verbatim>\<open>int\<close> parses, sign included: a counter line that
  carries a minus sign gives a negative number, so ``always at least 0'' does not hold for
  every text.
\<close>

theorem get_process_io_negative:
  "\<not> (0 \<le> fst (get_process_io (Some ''rchar: -5\<newline>wchar: 7'')) \<and>
      0 \<le> snd (get_process_io (Some ''rchar: -5\<newline>wchar: 7'')))"
proof -
  have "get_process_io (Some ''rchar: -5\<newline>wchar: 7'') = (- 5, 7)"
    by code_simp
  then show ?thesis by simp
qed

section \<open>What the cycle leaves untouched\<close>

lemma core_fields:
  "resolve_hosts (core w) = resolve_hosts w" "resolution_cache (core w) = resolution_cache w"
  "sort_column (core w) = sort_column w" "sort_ascending (core w) = sort_ascending w"
  "prev_io (core w) = prev_io w" "idle (core w) = idle w" "timeouts (core w) = timeouts w"
  "shown (core w) = shown w" "grid (core w) = grid w" "status_bar (core w) = status_bar w"
  by (simp_all add: core_def)

lemma core_eq_fields:
  assumes "core w' = core w"
  shows "resolve_hosts w' = resolve_hosts w" "resolution_cache w' = resolution_cache w"
    "sort_column w' = sort_column w" "sort_ascending w' = sort_ascending w"
    "prev_io w' = prev_io w" "idle w' = idle w" "timeouts w' = timeouts w"
    "shown w' = shown w" "grid w' = grid w" "status_bar w' = status_bar w"
  using assms core_fields by metis+

lemma resolve_address_core: "core (snd (resolve_address w addr)) = core w"
  by (simp add: resolve_address_def core_def Let_def split: option.splits)

lemma resolve_address_fst_cong:
  assumes "resolve_hosts w' = resolve_hosts w" and "resolution_cache w' = resolution_cache w"
  shows "fst (resolve_address w' addr) = fst (resolve_address w addr)"
  using assms
  by (simp add: resolve_address_def Let_def split: option.splits)

lemma resolve_address_fst_after:
  "fst (resolve_address (snd (resolve_address w a)) addr) = fst (resolve_address w addr)"
  by (rule resolve_address_fst_cong)
     (simp_all add: core_eq_fields(1,2) [OF resolve_address_core])

lemma filter_localhost_core: "core (snd (filter_localhost w cs)) = core w"
proof (induction cs arbitrary: w)
  case Nil
  then show ?case by simp
next
  case (Cons c cs)
  have "core (snd (filter_localhost (snd (resolve_address w (remote c))) cs)) =
        core (snd (resolve_address w (remote c)))"
    by (rule Cons.IH)
  then show ?case
    by (simp add: case_prod_beta resolve_address_core)
qed

lemma filter_localhost_fst:
  "fst (filter_localhost w cs) =
   filter (\<lambda>c. fst (resolve_address w (remote c)) \<noteq> ''LOCALHOST'') cs"
proof (induction cs arbitrary: w)
  case Nil
  then show ?case by simp
next
  case (Cons c cs)
  let ?w1 = "snd (resolve_address w (remote c))"
  have same: "fst (resolve_address ?w1 a) = fst (resolve_address w a)" for a
    by (rule resolve_address_fst_after)
  have "fst (filter_localhost ?w1 cs) =
        filter (\<lambda>c. fst (resolve_address ?w1 (remote c)) \<noteq> ''LOCALHOST'') cs"
    by (rule Cons.IH)
  then show ?case
    by (simp add: case_prod_beta same)
qed

lemma get_row_data_core: "core (snd (get_row_data e w c)) = core w"
  by (simp add: get_row_data_def Let_def case_prod_beta resolve_address_core)

lemma get_row_data_fst_cong:
  assumes "resolve_hosts w' = resolve_hosts w" and "resolution_cache w' = resolution_cache w"
  shows "fst (get_row_data e w' c) = fst (get_row_data e w c)"
proof -
  have a: "fst (resolve_address w' x) = fst (resolve_address w x)" for x
    using assms by (rule resolve_address_fst_cong)
  have b: "fst (resolve_address (snd (resolve_address w' (local c))) x) =
           fst (resolve_address (snd (resolve_address w (local c))) x)" for x
    by (simp add: resolve_address_fst_after a)
  show ?thesis
    by (simp add: get_row_data_def Let_def case_prod_beta a b)
qed

lemma get_row_data_fst_after:
  "fst (get_row_data e (snd (get_row_data e w c)) x) = fst (get_row_data e w x)"
  by (rule get_row_data_fst_cong)
     (simp_all add: core_eq_fields(1,2) [OF get_row_data_core])

lemma get_row_data_destination:
  "fst (get_row_data e w c) ! 3 =
   (if length (fst (resolve_address w (remote c))) > 30
    then take 30 (fst (resolve_address w (remote c)))
    else fst (resolve_address w (remote c)))"
  by (simp add: get_row_data_def Let_def case_prod_beta resolve_address_fst_after)

lemma get_sort_key_core: "core (snd (get_sort_key e w c)) = core w"
  by (simp add: get_sort_key_def Let_def case_prod_beta get_row_data_core)

lemma sort_keys_core: "core (snd (sort_keys e w cs)) = core w"
proof (induction cs arbitrary: w)
  case Nil
  then show ?case by simp
next
  case (Cons c cs)
  have "core (snd (sort_keys e (snd (get_sort_key e w c)) cs)) = core (snd (get_sort_key e w c))"
    by (rule Cons.IH)
  then show ?case
    by (simp add: case_prod_beta get_sort_key_core)
qed

lemma sort_keys_length: "length (fst (sort_keys e w cs)) = length cs"
  by (induction cs arbitrary: w) (simp_all add: case_prod_beta)

lemma mset_py_sorted: "mset (py_sorted key r xs) = mset xs"
  by (simp add: py_sorted_def)

lemma sort_connections_core: "core (snd (sort_connections e w cs)) = core w"
  by (simp add: sort_connections_def case_prod_beta sort_keys_core)

lemma sort_connections_mset: "mset (fst (sort_connections e w cs)) = mset cs"
proof -
  have "mset (map snd (py_sorted fst r (zip (fst (sort_keys e w cs)) cs))) = mset cs" for r
  proof -
    have "mset (map snd (py_sorted fst r (zip (fst (sort_keys e w cs)) cs))) =
          image_mset snd (mset (zip (fst (sort_keys e w cs)) cs))"
      by (simp add: mset_py_sorted)
    also have "\<dots> = mset (map snd (zip (fst (sort_keys e w cs)) cs))"
      by simp
    also have "\<dots> = mset cs"
      by (simp add: sort_keys_length)
    finally show ?thesis .
  qed
  then show ?thesis
    by (simp add: sort_connections_def case_prod_beta mset_py_sorted)
qed

lemma display_loop_core: "core (snd (snd (display_loop e w a cs))) = core w"
proof (induction cs arbitrary: w a)
  case Nil
  then show ?case by simp
next
  case (Cons c cs)
  show ?case
    by (simp add: case_prod_beta Let_def Cons.IH get_row_data_core)
qed

lemma display_loop_active:
  "fst (snd (display_loop e w a cs)) =
   a + length (filter (\<lambda>c. get_rate (rx_rate c) > 0 \<or> get_rate (tx_rate c) > 0) cs)"
  by (induction cs arbitrary: w a) (simp_all add: case_prod_beta Let_def)

lemma display_loop_rows:
  "fst (display_loop e w a cs) = map (\<lambda>c. fst (get_row_data e w c)) cs"
proof (induction cs arbitrary: w a)
  case Nil
  then show ?case by simp
next
  case (Cons c cs)
  show ?case
    by (simp add: case_prod_beta Let_def Cons.IH get_row_data_fst_after)
qed

section \<open>The rate loop and one cycle of the window\<close>

lemma rate_loop_conns:
  "fst (rate_loop prev cur ss) =
   map (\<lambda>(c, io). c\<lparr>rx_rate := Some (fst (spec_rates prev c io)),
                     tx_rate := Some (snd (spec_rates prev c io))\<rparr>) ss"
proof (induction ss arbitrary: cur)
  case Nil
  then show ?case by simp
next
  case (Cons s ss)
  obtain c io where s: "s = (c, io)" by (cases s)
  show ?case
    unfolding s
    by (simp add: case_prod_beta Let_def Cons.IH spec_rates_def split: option.splits)
qed

lemma rate_loop_length: "length (fst (rate_loop prev cur ss)) = length ss"
  by (simp add: rate_loop_conns)

lemma rate_loop_snd_step:
  "snd (rate_loop prev cur ((c, io) # ss)) =
   snd (rate_loop prev
          (if pid c \<noteq> ''N/A''
           then cur(pid c \<mapsto> \<lparr>rx = fst (get_process_io io), tx = snd (get_process_io io)\<rparr>)
           else cur) ss)"
  by (simp add: case_prod_beta Let_def)

lemma rate_loop_dom:
  "dom (snd (rate_loop prev cur ss)) =
   dom cur \<union> {pid c |c io. (c, io) \<in> set ss \<and> pid c \<noteq> ''N/A''}"
proof (induction ss arbitrary: cur)
  case Nil
  then show ?case by simp
next
  case (Cons s ss)
  obtain c io where s: "s = (c, io)" by (cases s)
  let ?S = "{pid c |c io. (c, io) \<in> set ss \<and> pid c \<noteq> ''N/A''}"
  have split: "{pid c' |c' io'. (c', io') \<in> set ((c, io) # ss) \<and> pid c' \<noteq> ''N/A''} =
               (if pid c \<noteq> ''N/A'' then insert (pid c) ?S else ?S)"
    by auto
  show ?case
    unfolding s rate_loop_snd_step Cons.IH split
    by auto
qed

lemma update_connections_shown_mset:
  "mset (shown (update_connections e w)) =
   mset (filter (\<lambda>c. fst (resolve_address w (remote c)) \<noteq> ''LOCALHOST'')
           (fst (rate_loop (prev_io w) Map.empty (sockets e))))"
proof -
  have "fst (resolve_address (w\<lparr>prev_io := m\<rparr>) a) = fst (resolve_address w a)" for m a
    by (rule resolve_address_fst_cong) simp_all
  then show ?thesis
    by (simp add: update_connections_def case_prod_beta Let_def update_status_def
        sort_connections_mset filter_localhost_fst)
qed

lemma update_connections_status:
  "status_bar (update_connections e w) =
   (if sockets e = [] then Monitoring
    else Counts (length (sockets e))
           (length (filter (\<lambda>c. get_rate (rx_rate c) > 0 \<or> get_rate (tx_rate c) > 0)
                      (shown (update_connections e w)))))"
  by (simp add: update_connections_def case_prod_beta Let_def update_status_def
      display_loop_active rate_loop_conns)

lemmas resolve_address_keeps = core_eq_fields [OF resolve_address_core]

lemmas filter_localhost_keeps = core_eq_fields [OF filter_localhost_core]

lemmas sort_connections_keeps = core_eq_fields [OF sort_connections_core]

lemmas display_loop_keeps = core_eq_fields [OF display_loop_core]

lemma update_connections_prev_io:
  "prev_io (update_connections e w) = snd (rate_loop (prev_io w) Map.empty (sockets e))"
  by (simp add: update_connections_def case_prod_beta Let_def update_status_def
      display_loop_keeps(5) sort_connections_keeps(5) filter_localhost_keeps(5))

lemma update_connections_cache:
  "resolution_cache (update_connections e w) = resolution_cache w"
  "resolve_hosts (update_connections e w) = resolve_hosts w"
  by (simp_all add: update_connections_def case_prod_beta Let_def update_status_def
      display_loop_keeps(1,2) sort_connections_keeps(1,2) filter_localhost_keeps(1,2))

lemma display_loop_rows_cong:
  assumes "resolve_hosts w' = resolve_hosts w" and "resolution_cache w' = resolution_cache w"
  shows "fst (display_loop e w' a cs) = map (\<lambda>c. fst (get_row_data e w c)) cs"
  by (simp add: display_loop_rows get_row_data_fst_cong [OF assms])

lemma update_connections_grid:
  "grid (update_connections e w) =
   map (\<lambda>c. fst (get_row_data e w c)) (shown (update_connections e w))"
  by (simp add: update_connections_def case_prod_beta Let_def update_status_def
      display_loop_rows_cong sort_connections_keeps(1,2) filter_localhost_keeps(1,2))

section \<open>Rates and the retained counters\<close>

text \<open>
  In the windowed program every attached rate is the clamped difference (\<open>rate_loop_conns\<close>),
  so none is negative.
\<close>

lemma rate_loop_nonneg:
  assumes "c \<in> set (fst (rate_loop prev cur ss))"
  shows "0 \<le> get_rate (rx_rate c) \<and> 0 \<le> get_rate (tx_rate c)"
proof -
  have "0 \<le> fst (spec_rates prev c' io) \<and> 0 \<le> snd (spec_rates prev c' io)" for c' io
    by (simp add: spec_rates_def split: option.splits)
  with assms show ?thesis
    by (auto simp: rate_loop_conns get_rate_def)
qed

text \<open>
  C1. The rates of a process id known from the cycle before are
  \<open>max 0 (current - previous)\<close> and so never negative. The terminal program takes the plain
  difference: with an earlier \<^verbatim>\<open>rchar\<close> of \<open>2^32 - 10\<close> and a current one of 5 it
  prints the rate \<open>-4294967281\<close>, where the windowed program gives 0.
\<close>

theorem cli_rate_not_clamped:
  "cli_rows (main_cycle [''100'' \<mapsto> \<lparr>rx = 4294967286, tx = 0\<rparr>]
               [(sample_conn ''93.184.216.34:443'' ''100'', Some ''rchar: 5\<newline>wchar: 0'')]) =
   [(sample_conn ''93.184.216.34:443'' ''100'', - 4294967281, 0)]"
  by code_simp

text \<open>
  In the windowed program the retained map holds, after a cycle, exactly the process ids
  of that cycle's connections.
\<close>

lemma update_connections_prev_io_dom:
  "dom (prev_io (update_connections e w)) =
   {pid c |c io. (c, io) \<in> set (sockets e) \<and> pid c \<noteq> ''N/A''}"
  by (simp add: update_connections_prev_io rate_loop_dom)

text \<open>
  C2. After a cycle the retained map holds no process id that is absent from the cycle's
  connections. The terminal program updates its dictionary in place and never removes a
  key: process 100, absent from the cycle below, is still in the map afterwards.
\<close>

theorem cli_prev_io_keeps_vanished:
  "cli_prev_io (main_cycle [''100'' \<mapsto> \<lparr>rx = 1024, tx = 0\<rparr>]
                  [(sample_conn ''93.184.216.34:443'' ''200'', Some ''rchar: 7\<newline>wchar: 9'')])
     ''100'' = Some \<lparr>rx = 1024, tx = 0\<rparr>"
  by code_simp

section \<open>Completion of a lookup\<close>

lemma resolve_address_pending_mono:
  "resolution_pending w \<subseteq> resolution_pending (snd (resolve_address w addr))"
  by (auto simp: resolve_address_def Let_def split: option.splits)

lemma filter_localhost_pending_mono:
  "resolution_pending w \<subseteq> resolution_pending (snd (filter_localhost w cs))"
proof (induction cs arbitrary: w)
  case Nil
  then show ?case by simp
next
  case (Cons c cs)
  have "resolution_pending w \<subseteq> resolution_pending (snd (resolve_address w (remote c)))"
    by (rule resolve_address_pending_mono)
  also have "\<dots> \<subseteq> resolution_pending (snd (filter_localhost (snd (resolve_address w (remote c))) cs))"
    by (rule Cons.IH)
  finally show ?case by (simp add: case_prod_beta)
qed

lemma get_row_data_pending_mono:
  "resolution_pending w \<subseteq> resolution_pending (snd (get_row_data e w c))"
proof -
  have "resolution_pending w \<subseteq> resolution_pending (snd (resolve_address w (local c)))"
    by (rule resolve_address_pending_mono)
  also have "\<dots> \<subseteq> resolution_pending
      (snd (resolve_address (snd (resolve_address w (local c))) (remote c)))"
    by (rule resolve_address_pending_mono)
  finally show ?thesis
    by (simp add: get_row_data_def Let_def case_prod_beta)
qed

lemma sort_keys_pending_mono:
  "resolution_pending w \<subseteq> resolution_pending (snd (sort_keys e w cs))"
proof (induction cs arbitrary: w)
  case Nil
  then show ?case by simp
next
  case (Cons c cs)
  have "resolution_pending w \<subseteq> resolution_pending (snd (get_sort_key e w c))"
    by (simp add: get_sort_key_def Let_def case_prod_beta get_row_data_pending_mono)
  also have "\<dots> \<subseteq> resolution_pending (snd (sort_keys e (snd (get_sort_key e w c)) cs))"
    by (rule Cons.IH)
  finally show ?case by (simp add: case_prod_beta)
qed

lemma sort_connections_pending_mono:
  "resolution_pending w \<subseteq> resolution_pending (snd (sort_connections e w cs))"
  by (simp add: sort_connections_def case_prod_beta sort_keys_pending_mono)

lemma display_loop_pending_mono:
  "resolution_pending w \<subseteq> resolution_pending (snd (snd (display_loop e w a cs)))"
proof (induction cs arbitrary: w a)
  case Nil
  then show ?case by simp
next
  case (Cons c cs)
  have "resolution_pending w \<subseteq> resolution_pending (snd (get_row_data e w c))"
    by (rule get_row_data_pending_mono)
  also have "\<dots> \<subseteq> resolution_pending
      (snd (snd (display_loop e (snd (get_row_data e w c))
         (if get_rate (rx_rate c) > 0 \<or> get_rate (tx_rate c) > 0 then a + 1 else a) cs)))"
    by (rule Cons.IH)
  finally show ?case by (simp add: case_prod_beta Let_def)
qed

lemma update_connections_pending_mono:
  "resolution_pending w \<subseteq> resolution_pending (update_connections e w)"
proof -
  let ?w1 = "w\<lparr>prev_io := snd (rate_loop (prev_io w) Map.empty (sockets e))\<rparr>"
  let ?f = "filter_localhost ?w1 (fst (rate_loop (prev_io w) Map.empty (sockets e)))"
  let ?s = "sort_connections e (snd ?f) (fst ?f)"
  let ?d = "display_loop e (snd ?s) 0 (fst ?s)"
  have "resolution_pending w = resolution_pending ?w1" by simp
  also have "\<dots> \<subseteq> resolution_pending (snd ?f)" by (rule filter_localhost_pending_mono)
  also have "\<dots> \<subseteq> resolution_pending (snd ?s)" by (rule sort_connections_pending_mono)
  also have "\<dots> \<subseteq> resolution_pending (snd (snd ?d))" by (rule display_loop_pending_mono)
  also have "\<dots> = resolution_pending (update_connections e w)"
    by (simp add: update_connections_def case_prod_beta Let_def update_status_def)
  finally show ?thesis .
qed

text \<open>
  The callback tests whether the whole address is in the pending set, which holds host
  parts; unless that test succeeds, nothing leaves the set.
\<close>

lemma update_resolution_cache_keeps_pending:
  assumes "addr \<notin> resolution_pending w"
  shows "resolution_pending w \<subseteq> resolution_pending (update_resolution_cache e addr resolved w)"
proof -
  have "resolution_pending w =
        resolution_pending (w\<lparr>resolution_cache := (resolution_cache w)(addr \<mapsto> resolved)\<rparr>)"
    by simp
  also have "\<dots> \<subseteq> resolution_pending
      (update_connections e (w\<lparr>resolution_cache := (resolution_cache w)(addr \<mapsto> resolved)\<rparr>))"
    by (rule update_connections_pending_mono)
  finally show ?thesis
    using assms by (simp add: update_resolution_cache_def Let_def)
qed

lemma update_resolution_cache_writes:
  "resolution_cache (update_resolution_cache e addr resolved w) =
   (resolution_cache w)(addr \<mapsto> resolved)"
  by (simp add: update_resolution_cache_def Let_def update_connections_cache)

text \<open>
  C3. When a lookup completes, the callback writes the cache, takes the host part of the
  address out of the pending set and re-runs the cycle. Traced from the first
  \<^verbatim>\<open>resolve_address\<close> call to the callback: the cache is written and the cycle runs
  again, but the host part \<^verbatim>\<open>93.184.216.34\<close> is still pending afterwards.
\<close>

theorem pending_kept_after_lookup:
  "(let addr = ''93.184.216.34:443'';
        w1 = snd (resolve_address init_window addr);
        w2 = async_resolve_host (Some ''example.com'') ''93.184.216.34'' addr w1;
        w3 = idle_step quiet_env w2
    in threads w1 = [(''93.184.216.34'', addr)] \<and>
       resolution_pending w1 = {''93.184.216.34''} \<and>
       idle w2 = [UpdateResolutionCache addr ''example.com:443''] \<and>
       resolution_cache w3 addr = Some ''example.com:443'' \<and>
       timeouts w3 = 1 \<and>
       ''93.184.216.34'' \<in> resolution_pending w3)"
  by code_simp

section \<open>Resolving twice, and the toggle\<close>

text \<open>
  C5 (amended). For an address that is none of the special forms (any-address, loopback,
  multicast DNS) and holds a colon, with resolution on, no cache entry and its host part
  not pending: the first call returns the address as it is, starts exactly one lookup
  thread for the host part and adds the host part to the pending set; a second call right
  after it returns the same text and changes nothing, so no further thread starts. The
  pending collection is a set, so the host part is in it once.
\<close>

theorem resolve_address_twice:
  assumes "addr \<noteq> ''0.0.0.0:*''" and "addr \<noteq> ''*:*''" and "addr \<noteq> ''[::]:*''"
    and "\<not> startswith addr ''127.0.0.1:''" and "\<not> startswith addr ''[::1]:''"
    and "\<not> startswith addr ''224.0.0.251:''"
    and "resolve_hosts w" and "resolution_cache w addr = None"
    and "CHR '':'' \<in> set addr" and "ip_part_of addr \<notin> resolution_pending w"
  shows "fst (resolve_address w addr) = addr \<and>
         threads (snd (resolve_address w addr)) = threads w @ [(ip_part_of addr, addr)] \<and>
         resolution_pending (snd (resolve_address w addr)) =
           insert (ip_part_of addr) (resolution_pending w) \<and>
         resolve_address (snd (resolve_address w addr)) addr =
           (addr, snd (resolve_address w addr))"
proof -
  let ?w1 = "w\<lparr>resolution_pending := insert (ip_part_of addr) (resolution_pending w),
               threads := threads w @ [(ip_part_of addr, addr)]\<rparr>"
  have first: "resolve_address w addr = (addr, ?w1)"
    using assms by (simp add: resolve_address_def Let_def)
  have second: "resolve_address ?w1 addr = (addr, ?w1)"
    using assms by (simp add: resolve_address_def Let_def)
  show ?thesis
    unfolding first using second by simp
qed

theorem resolve_address_twice_witness:
  "resolve_hosts init_window \<and> resolution_cache init_window ''93.184.216.34:443'' = None \<and>
   ip_part_of ''93.184.216.34:443'' = ''93.184.216.34'' \<and>
   ''93.184.216.34'' \<notin> resolution_pending init_window \<and>
   fst (resolve_address init_window ''93.184.216.34:443'') = ''93.184.216.34:443'' \<and>
   threads (snd (resolve_address init_window ''93.184.216.34:443'')) =
     [(''93.184.216.34'', ''93.184.216.34:443'')] \<and>
   resolution_pending (snd (resolve_address init_window ''93.184.216.34:443'')) =
     {''93.184.216.34''} \<and>
   resolve_address (snd (resolve_address init_window ''93.184.216.34:443'')) ''93.184.216.34:443'' =
     (''93.184.216.34:443'', snd (resolve_address init_window ''93.184.216.34:443''))"
proof -
  have ip: "ip_part_of ''93.184.216.34:443'' = ''93.184.216.34''"
    by (simp add: ip_part_of_def rsplit1_def startswith_def endswith_def)
  have h: "''93.184.216.34:443'' \<noteq> ''0.0.0.0:*''" "''93.184.216.34:443'' \<noteq> ''*:*''"
    "''93.184.216.34:443'' \<noteq> ''[::]:*''"
    "\<not> startswith ''93.184.216.34:443'' ''127.0.0.1:''"
    "\<not> startswith ''93.184.216.34:443'' ''[::1]:''"
    "\<not> startswith ''93.184.216.34:443'' ''224.0.0.251:''"
    "resolve_hosts init_window" "resolution_cache init_window ''93.184.216.34:443'' = None"
    "CHR '':'' \<in> set ''93.184.216.34:443''"
    "ip_part_of ''93.184.216.34:443'' \<notin> resolution_pending init_window"
    by (simp_all add: startswith_def init_window_def ip)
  have t: "threads init_window = []" and p: "resolution_pending init_window = {}"
    by (simp_all add: init_window_def)
  from resolve_address_twice [OF h] show ?thesis
    using h(7,8) by (simp add: ip t p)
qed

text \<open>
  Without the restriction to the other forms the statement fails: a loopback address with
  resolution on, no cache entry and nothing pending comes back as \<^verbatim>\<open>LOCALHOST\<close>, not as
  the raw text, and starts no lookup.
\<close>

theorem resolve_address_loopback_not_raw:
  "resolve_hosts init_window \<and> resolution_cache init_window ''127.0.0.1:631'' = None \<and>
   ip_part_of ''127.0.0.1:631'' \<notin> resolution_pending init_window \<and>
   fst (resolve_address init_window ''127.0.0.1:631'') = ''LOCALHOST'' \<and>
   fst (resolve_address init_window ''127.0.0.1:631'') \<noteq> ''127.0.0.1:631'' \<and>
   threads (snd (resolve_address init_window ''127.0.0.1:631'')) = []"
  by (simp add: resolve_address_def init_window_def startswith_def)

text \<open>
  C4 (amended). Switching resolution on leaves the cache, the pending set, the retained
  counters and the started threads as they are, and schedules one \<^verbatim>\<open>delayed_refresh\<close> on
  the main loop. When that callback runs, the cycle starts from an empty counter map: the
  retained map afterwards is built from this cycle alone and every rate shown is 0.
\<close>

theorem on_resolve_toggled_enable:
  "resolution_cache (on_resolve_toggled True w) = resolution_cache w \<and>
   resolution_pending (on_resolve_toggled True w) = resolution_pending w \<and>
   prev_io (on_resolve_toggled True w) = prev_io w \<and>
   threads (on_resolve_toggled True w) = threads w \<and>
   resolve_hosts (on_resolve_toggled True w) \<and>
   idle (on_resolve_toggled True w) = idle w @ [DelayedRefresh] \<and>
   prev_io (delayed_refresh e w) = snd (rate_loop Map.empty Map.empty (sockets e)) \<and>
   mset (shown (delayed_refresh e w)) =
     mset (filter (\<lambda>c. fst (resolve_address w (remote c)) \<noteq> ''LOCALHOST'')
             (map (\<lambda>s. (fst s)\<lparr>rx_rate := Some 0, tx_rate := Some 0\<rparr>) (sockets e)))"
proof -
  have zero: "fst (rate_loop Map.empty cur ss) =
              map (\<lambda>s. (fst s)\<lparr>rx_rate := Some 0, tx_rate := Some 0\<rparr>) ss" for cur ss
    by (simp add: rate_loop_conns spec_rates_def case_prod_beta)
  have same: "fst (resolve_address (w\<lparr>prev_io := m\<rparr>) a) = fst (resolve_address w a)" for m a
    by (rule resolve_address_fst_cong) simp_all
  have refresh: "mset (shown (delayed_refresh e w)) =
     mset (filter (\<lambda>c. fst (resolve_address w (remote c)) \<noteq> ''LOCALHOST'')
             (map (\<lambda>s. (fst s)\<lparr>rx_rate := Some 0, tx_rate := Some 0\<rparr>) (sockets e)))"
    by (simp add: delayed_refresh_def update_connections_shown_mset zero same)
  have baseline: "prev_io (delayed_refresh e w) = snd (rate_loop Map.empty Map.empty (sockets e))"
    by (simp add: delayed_refresh_def update_connections_prev_io)
  show ?thesis
    using refresh baseline by (simp add: on_resolve_toggled_def)
qed

text \<open>
  So the call does trigger a refresh, and the refresh discards the retained counters: a
  cycle that would show the rate 1024 shows 0 once the toggle's callback has run, and that
  cycle starts the lookups.
\<close>

theorem enable_schedules_refresh:
  "idle toggle_window = [] \<and>
   idle (on_resolve_toggled True toggle_window) = [DelayedRefresh] \<and>
   map rx_rate (shown (update_connections one_socket_env toggle_window)) = [Some 1024] \<and>
   map rx_rate (shown (idle_step one_socket_env (on_resolve_toggled True toggle_window))) =
     [Some 0] \<and>
   threads (idle_step one_socket_env (on_resolve_toggled True toggle_window)) =
     [(''93.184.216.34'', ''93.184.216.34:443''), (''10.0.0.2'', ''10.0.0.2:5000'')]"
  by code_simp

section \<open>Connections to the local host are never shown\<close>

lemma cli_loop_rows:
  "map fst (fst (cli_loop prev a ss)) =
   filter (\<lambda>c. resolve_address_cli (remote c) \<noteq> ''LOCALHOST'') (map fst ss)"
proof (induction ss arbitrary: prev a)
  case Nil
  then show ?case by simp
next
  case (Cons s ss)
  obtain c io where s: "s = (c, io)" by (cases s)
  show ?case
    unfolding s by (simp add: case_prod_beta Let_def Cons.IH)
qed

lemma cli_loop_active:
  "fst (snd (cli_loop prev a ss)) =
   a + length (filter (\<lambda>r. fst (snd r) > 0 \<or> snd (snd r) > 0) (fst (cli_loop prev a ss)))"
proof (induction ss arbitrary: prev a)
  case Nil
  then show ?case by simp
next
  case (Cons s ss)
  obtain c io where s: "s = (c, io)" by (cases s)
  show ?case
    unfolding s by (simp add: case_prod_beta Let_def Cons.IH)
qed

lemma shown_not_localhost:
  assumes "c \<in> set (shown (update_connections e w))"
  shows "fst (resolve_address w (remote c)) \<noteq> ''LOCALHOST''"
proof -
  from assms have "c \<in># mset (shown (update_connections e w))" by simp
  then have "c \<in> set (filter (\<lambda>c. fst (resolve_address w (remote c)) \<noteq> ''LOCALHOST'')
                        (fst (rate_loop (prev_io w) Map.empty (sockets e))))"
    unfolding update_connections_shown_mset by simp
  then show ?thesis by simp
qed

lemma destination_not_localhost:
  assumes "fst (resolve_address w (remote c)) \<noteq> ''LOCALHOST''"
  shows "fst (get_row_data e w c) ! 3 \<noteq> ''LOCALHOST''"
proof (cases "length (fst (resolve_address w (remote c))) > 30")
  case True
  then have "length (fst (get_row_data e w c) ! 3) = 30"
    by (simp add: get_row_data_destination)
  then show ?thesis by auto
next
  case False
  with assms show ?thesis by (simp add: get_row_data_destination)
qed

text \<open>
  C7. Whatever the connections, the sort column and the direction, no connection whose
  remote address resolves to \<^verbatim>\<open>LOCALHOST\<close> is among the connections shown, no row of the
  grid has \<^verbatim>\<open>LOCALHOST\<close> as its destination, and the terminal program prints no such row.
  The filter runs before the sort (\<open>update_connections_shown_mset\<close>).
\<close>

theorem localhost_never_shown:
  "(\<forall>c \<in> set (shown (update_connections e w)).
      fst (resolve_address w (remote c)) \<noteq> ''LOCALHOST'') \<and>
   (\<forall>row \<in> set (grid (update_connections e w)). row ! 3 \<noteq> ''LOCALHOST'') \<and>
   (\<forall>r \<in> set (cli_rows (main_cycle prev ss)).
      resolve_address_cli (remote (fst r)) \<noteq> ''LOCALHOST'')"
proof (intro conjI ballI)
  fix c assume "c \<in> set (shown (update_connections e w))"
  then show "fst (resolve_address w (remote c)) \<noteq> ''LOCALHOST''"
    by (rule shown_not_localhost)
next
  fix row assume "row \<in> set (grid (update_connections e w))"
  then obtain c where c: "c \<in> set (shown (update_connections e w))"
    and row: "row = fst (get_row_data e w c)"
    unfolding update_connections_grid by auto
  from c have "fst (resolve_address w (remote c)) \<noteq> ''LOCALHOST''"
    by (rule shown_not_localhost)
  then show "row ! 3 \<noteq> ''LOCALHOST''"
    unfolding row by (rule destination_not_localhost)
next
  fix r assume r: "r \<in> set (cli_rows (main_cycle prev ss))"
  have "cli_rows (main_cycle prev ss) = fst (cli_loop prev 0 ss)"
    by (cases ss) (simp_all add: main_cycle_def case_prod_beta)
  with r have "fst r \<in> set (map fst (fst (cli_loop prev 0 ss)))" by simp
  then show "resolve_address_cli (remote (fst r)) \<noteq> ''LOCALHOST''"
    unfolding cli_loop_rows by simp
qed

theorem localhost_never_shown_witness:
  "map remote (shown (update_connections two_socket_env two_socket_window)) =
     [''93.184.216.34:443''] \<and>
   list_all (\<lambda>c. fst (resolve_address two_socket_window (remote c)) \<noteq> ''LOCALHOST'')
     (shown (update_connections two_socket_env two_socket_window)) \<and>
   map (\<lambda>row. row ! 3) (grid (update_connections two_socket_env two_socket_window)) =
     [''93.184.216.34:443''] \<and>
   list_all (\<lambda>row. row ! 3 \<noteq> ''LOCALHOST'')
     (grid (update_connections two_socket_env two_socket_window)) \<and>
   map (\<lambda>r. remote (fst r)) (cli_rows (main_cycle Map.empty (sockets two_socket_env))) =
     [''93.184.216.34:443''] \<and>
   list_all (\<lambda>r. resolve_address_cli (remote (fst r)) \<noteq> ''LOCALHOST'')
     (cli_rows (main_cycle Map.empty (sockets two_socket_env)))"
proof -
  have a: "map remote (shown (update_connections two_socket_env two_socket_window)) =
             [''93.184.216.34:443'']"
    by code_simp
  have b: "map (\<lambda>row. row ! 3) (grid (update_connections two_socket_env two_socket_window)) =
             [''93.184.216.34:443'']"
    by code_simp
  have c: "map (\<lambda>r. remote (fst r)) (cli_rows (main_cycle Map.empty (sockets two_socket_env))) =
             [''93.184.216.34:443'']"
    by code_simp
  from localhost_never_shown [of two_socket_env two_socket_window Map.empty
      "sockets two_socket_env"]
  show ?thesis
    using a b c by (simp add: list_all_iff)
qed

section \<open>Sorting by rate\<close>

lemma py_sorted_ordered:
  "sorted (map key (if reverse then rev (py_sorted key reverse xs) else py_sorted key reverse xs))"
  by (simp add: py_sorted_def)

lemma py_sorted_stable:
  "filter (\<lambda>y. key y = k) (py_sorted key reverse xs) = filter (\<lambda>y. key y = k) xs"
proof (cases reverse)
  case True
  have "filter (\<lambda>y. key y = k) (rev (sort_key key (rev xs))) =
        rev (filter (\<lambda>y. key y = k) (sort_key key (rev xs)))"
    by (simp add: rev_filter)
  also have "\<dots> = rev (filter (\<lambda>y. key y = k) (rev xs))"
    by (simp only: sort_key_stable)
  also have "\<dots> = filter (\<lambda>y. key y = k) xs"
    by (simp add: rev_filter)
  finally show ?thesis using True by (simp add: py_sorted_def)
next
  case False
  then show ?thesis by (simp add: py_sorted_def sort_key_stable)
qed

text \<open>
  C8. With the TX column (5) or the RX column (6) selected, \<^verbatim>\<open>sort_connections\<close> orders
  by the number stored in the connection, ascending or descending as selected; connections
  with equal numbers keep their input order in both directions, and the result is a
  rearrangement of the input.
\<close>

theorem sort_connections_numeric_stable:
  assumes "sort_column w = 5 \<or> sort_column w = 6"
  shows "(let key = (\<lambda>c. if sort_column w = 5 then get_rate (tx_rate c)
                          else get_rate (rx_rate c));
              out = fst (sort_connections e w cs)
          in sorted (map key (if sort_ascending w then out else rev out)) \<and>
             (\<forall>k. filter (\<lambda>c. key c = k) out = filter (\<lambda>c. key c = k) cs) \<and>
             mset out = mset cs)"
proof (cases "cs = []")
  case True
  then show ?thesis by (simp add: sort_connections_def)
next
  case False
  let ?key = "\<lambda>c. if sort_column w = 5 then get_rate (tx_rate c) else get_rate (rx_rate c)"
  from assms False have out: "fst (sort_connections e w cs) = py_sorted ?key (\<not> sort_ascending w) cs"
    by (auto simp: sort_connections_def)
  have ordered: "sorted (map ?key (if sort_ascending w then py_sorted ?key (\<not> sort_ascending w) cs
                                   else rev (py_sorted ?key (\<not> sort_ascending w) cs)))"
  proof (cases "sort_ascending w")
    case True
    with py_sorted_ordered [of ?key False cs] show ?thesis by simp
  next
    case False
    with py_sorted_ordered [of ?key True cs] show ?thesis by simp
  qed
  have stable: "filter (\<lambda>c. ?key c = k) (py_sorted ?key (\<not> sort_ascending w) cs) =
                filter (\<lambda>c. ?key c = k) cs" for k
    by (rule py_sorted_stable)
  show ?thesis
    unfolding Let_def out using ordered stable by (simp add: mset_py_sorted)
qed

theorem sort_connections_numeric_stable_witness:
  "sort_column tx_descending = 5 \<and>
   map pid (fst (sort_connections quiet_env tx_descending three_rated)) = [''1'', ''3'', ''2''] \<and>
   map (\<lambda>c. get_rate (tx_rate c)) (fst (sort_connections quiet_env tx_descending three_rated)) =
     [1024, 1024, 900] \<and>
   sorted (map (\<lambda>c. get_rate (tx_rate c))
             (rev (fst (sort_connections quiet_env tx_descending three_rated)))) \<and>
   filter (\<lambda>c. get_rate (tx_rate c) = 1024)
     (fst (sort_connections quiet_env tx_descending three_rated)) =
   filter (\<lambda>c. get_rate (tx_rate c) = 1024) three_rated"
proof -
  have col: "sort_column tx_descending = 5" and dir: "\<not> sort_ascending tx_descending"
    by (simp_all add: tx_descending_def init_window_def)
  then have h: "sort_column tx_descending = 5 \<or> sort_column tx_descending = 6"
    by simp
  have pids: "map pid (fst (sort_connections quiet_env tx_descending three_rated)) =
                [''1'', ''3'', ''2'']"
    by code_simp
  have keys: "map (\<lambda>c. get_rate (tx_rate c))
                (fst (sort_connections quiet_env tx_descending three_rated)) = [1024, 1024, 900]"
    by code_simp
  from sort_connections_numeric_stable [OF h, of quiet_env three_rated]
  show ?thesis
    using col dir pids keys by (simp add: Let_def)
qed

section \<open>The summary counts\<close>

lemma length_filter_mset_eq:
  assumes "mset xs = mset ys"
  shows "length (filter P xs) = length (filter P ys)"
proof -
  have "size (filter_mset P (mset xs)) = size (filter_mset P (mset ys))"
    using assms by simp
  then show ?thesis
    by (simp only: mset_filter [symmetric] size_mset)
qed

text \<open>
  C10. The summary's total is the number of all connections of the cycle, those to the
  local host included; the active count is the number of connections with a positive rate
  among those not filtered out. The rows shown are the connections not filtered out, so
  the total can exceed their number, and a local connection with a positive rate is not
  counted as active.
\<close>

theorem summary_counts:
  "(sockets e \<noteq> [] \<longrightarrow>
      status_bar (update_connections e w) =
        Counts (length (sockets e))
          (length (filter (\<lambda>c. fst (resolve_address w (remote c)) \<noteq> ''LOCALHOST'' \<and>
                               (get_rate (rx_rate c) > 0 \<or> get_rate (tx_rate c) > 0))
                     (fst (rate_loop (prev_io w) Map.empty (sockets e)))))) \<and>
   length (shown (update_connections e w)) =
     length (filter (\<lambda>c. fst (resolve_address w (remote c)) \<noteq> ''LOCALHOST'')
               (fst (rate_loop (prev_io w) Map.empty (sockets e)))) \<and>
   (ss \<noteq> [] \<longrightarrow>
      cli_summary (main_cycle prev ss) =
        Some (length ss,
              length (filter (\<lambda>r. fst (snd r) > 0 \<or> snd (snd r) > 0)
                        (cli_rows (main_cycle prev ss))))) \<and>
   map fst (cli_rows (main_cycle prev ss)) =
     filter (\<lambda>c. resolve_address_cli (remote c) \<noteq> ''LOCALHOST'') (map fst ss)"
proof -
  let ?rated = "fst (rate_loop (prev_io w) Map.empty (sockets e))"
  let ?nonlocal = "\<lambda>c. fst (resolve_address w (remote c)) \<noteq> ''LOCALHOST''"
  let ?active = "\<lambda>c. get_rate (rx_rate c) > 0 \<or> get_rate (tx_rate c) > 0"
  have perm: "mset (shown (update_connections e w)) = mset (filter ?nonlocal ?rated)"
    by (rule update_connections_shown_mset)
  have "length (filter ?active (shown (update_connections e w))) =
        length (filter ?active (filter ?nonlocal ?rated))"
    using perm by (rule length_filter_mset_eq)
  also have "\<dots> = length (filter (\<lambda>c. ?nonlocal c \<and> ?active c) ?rated)"
    by (simp add: conj_commute)
  finally have active: "length (filter ?active (shown (update_connections e w))) =
                        length (filter (\<lambda>c. ?nonlocal c \<and> ?active c) ?rated)" .
  have gtk: "status_bar (update_connections e w) =
             Counts (length (sockets e)) (length (filter (\<lambda>c. ?nonlocal c \<and> ?active c) ?rated))"
    if "sockets e \<noteq> []"
    using that by (simp add: update_connections_status active)
  have rows: "length (shown (update_connections e w)) = length (filter ?nonlocal ?rated)"
    using perm by (metis size_mset)
  have cli_rows_eq: "cli_rows (main_cycle prev ss) = fst (cli_loop prev 0 ss)"
    by (cases ss) (simp_all add: main_cycle_def case_prod_beta)
  have cli: "cli_summary (main_cycle prev ss) =
        Some (length ss,
              length (filter (\<lambda>r. fst (snd r) > 0 \<or> snd (snd r) > 0)
                        (cli_rows (main_cycle prev ss))))"
    if "ss \<noteq> []"
    unfolding cli_rows_eq using that
    by (simp add: main_cycle_def case_prod_beta cli_loop_active)
  have cli_shown: "map fst (cli_rows (main_cycle prev ss)) =
     filter (\<lambda>c. resolve_address_cli (remote c) \<noteq> ''LOCALHOST'') (map fst ss)"
    unfolding cli_rows_eq by (rule cli_loop_rows)
  from gtk rows cli cli_shown show ?thesis by blast
qed

theorem summary_counts_witness:
  "sockets two_socket_env \<noteq> [] \<and>
   status_bar (update_connections two_socket_env two_socket_window) = Counts 2 1 \<and>
   length (shown (update_connections two_socket_env two_socket_window)) = 1 \<and>
   map (\<lambda>c. (remote c, rx_rate c))
     (fst (rate_loop (prev_io two_socket_window) Map.empty (sockets two_socket_env))) =
     [(''127.0.0.1:631'', Some 899), (''93.184.216.34:443'', Some 1024)] \<and>
   cli_summary (main_cycle (prev_io two_socket_window) (sockets two_socket_env)) = Some (2, 1) \<and>
   map (\<lambda>r. remote (fst r))
     (cli_rows (main_cycle (prev_io two_socket_window) (sockets two_socket_env))) =
     [''93.184.216.34:443'']"
proof -
  have ne: "sockets two_socket_env \<noteq> []"
    by (simp add: two_socket_env_def)
  have rated: "map (\<lambda>c. (remote c, rx_rate c))
     (fst (rate_loop (prev_io two_socket_window) Map.empty (sockets two_socket_env))) =
     [(''127.0.0.1:631'', Some 899), (''93.184.216.34:443'', Some 1024)]"
    by code_simp
  have counted: "length (filter (\<lambda>c. fst (resolve_address two_socket_window (remote c)) \<noteq> ''LOCALHOST'' \<and>
                               (get_rate (rx_rate c) > 0 \<or> get_rate (tx_rate c) > 0))
                     (fst (rate_loop (prev_io two_socket_window) Map.empty
                             (sockets two_socket_env)))) = 1"
    by code_simp
  have kept: "length (filter (\<lambda>c. fst (resolve_address two_socket_window (remote c)) \<noteq> ''LOCALHOST'')
               (fst (rate_loop (prev_io two_socket_window) Map.empty
                       (sockets two_socket_env)))) = 1"
    by code_simp
  have cli_active: "length (filter (\<lambda>r. fst (snd r) > 0 \<or> snd (snd r) > 0)
      (cli_rows (main_cycle (prev_io two_socket_window) (sockets two_socket_env)))) = 1"
    by code_simp
  have cli_shown: "map remote (filter (\<lambda>c. resolve_address_cli (remote c) \<noteq> ''LOCALHOST'')
                     (map fst (sockets two_socket_env))) = [''93.184.216.34:443'']"
    by code_simp
  have len: "length (sockets two_socket_env) = 2"
    by (simp add: two_socket_env_def)
  from summary_counts [of two_socket_env two_socket_window "sockets two_socket_env"
      "prev_io two_socket_window"]
  have main: "status_bar (update_connections two_socket_env two_socket_window) = Counts 2 1"
    and rows: "length (shown (update_connections two_socket_env two_socket_window)) = 1"
    and cli: "cli_summary (main_cycle (prev_io two_socket_window) (sockets two_socket_env)) =
                Some (2, 1)"
    and shown_cli: "map fst (cli_rows (main_cycle (prev_io two_socket_window)
                      (sockets two_socket_env))) =
        filter (\<lambda>c. resolve_address_cli (remote c) \<noteq> ''LOCALHOST'')
          (map fst (sockets two_socket_env))"
    using ne counted kept cli_active len by simp_all
  have "map (\<lambda>r. remote (fst r))
     (cli_rows (main_cycle (prev_io two_socket_window) (sockets two_socket_env))) =
     map remote (map fst (cli_rows (main_cycle (prev_io two_socket_window)
        (sockets two_socket_env))))"
    by simp
  also have "\<dots> = [''93.184.216.34:443'']"
    unfolding shown_cli by (rule cli_shown)
  finally show ?thesis
    using ne main rows rated cli by blast
qed

end
